theory Spec2Isabelle
  imports Complex_Main "HOL-Library.Word" "HOL-Library.Signed_Division"
begin

section \<open>Machine integers of the 64-bit host\<close>

text \<open>
  Go's \<open>int\<close> is a 64-bit two's complement integer on the 64-bit host the
  demonstrations are written for; \<open>+\<close>, \<open>-\<close> and \<open>*\<close> wrap around, comparison
  reads the value as signed (\<open><s\<close>, \<open>\<le>s\<close>), and \<open>/\<close> truncates towards zero.
  \<open>time.Duration\<close> is an \<open>int64\<close>, \<open>uintptr\<close> an unsigned 64-bit integer.
\<close>

type_synonym int64 = "64 word"
type_synonym Duration = "64 word"
type_synonym uintptr = "64 word"

definition go_div :: "int64 \<Rightarrow> int64 \<Rightarrow> int64" where
  "go_div a b = word_of_int (sint a sdiv sint b)"

definition go_mod :: "int64 \<Rightarrow> int64 \<Rightarrow> int64" where
  "go_mod a b = word_of_int (sint a smod sint b)"

section \<open>Day 2: slice growth and pre-allocation\<close>

subsection \<open>calculateGrowth\<close>

text \<open>
  One pass through the body of the loop of \<open>calculateGrowth\<close>, on the pair
  \<open>(cap, reallocs)\<close>: the capacity 0 becomes 1, a capacity below 1024 is
  doubled, any other capacity gains \<open>cap/4\<close>; \<open>reallocs\<close> counts the passes that
  started from a positive capacity.
\<close>

definition growth_body :: "int64 \<times> int64 \<Rightarrow> int64 \<times> int64" where
  "growth_body s =
     (let cap = fst s; reallocs = snd s; oldCap = cap;
          cap = (if cap = 0 then 1
                 else if cap <s 1024 then cap * 2
                 else cap + go_div cap 4);
          reallocs = (if 0 <s oldCap then reallocs + 1 else reallocs)
      in (cap, reallocs))"

text \<open>
  The loop \<open>for cap < target\<close>. It is not known in advance to end, so a run that
  never leaves the loop has the value \<open>None\<close>.
\<close>

partial_function (option) growth_loop ::
  "int64 \<Rightarrow> int64 \<times> int64 \<Rightarrow> (int64 \<times> int64) option" where
  "growth_loop target s =
     (if fst s <s target then growth_loop target (growth_body s) else Some s)"

declare growth_loop.simps [code]

definition calculateGrowth :: "int64 \<Rightarrow> (int64 \<times> int64 \<times> int64) option" where
  "calculateGrowth target =
     (case growth_loop target (0, 0) of
        None \<Rightarrow> None
      | Some (cap, reallocs) \<Rightarrow> Some (cap, reallocs, cap - target))"

text \<open>
  The first \<open>n\<close> passes of that loop from state \<open>s\<close>: the state after them, or
  \<open>None\<close> when the loop has left before. \<open>increasing_run\<close> is the same walk,
  stopping with \<open>None\<close> at the first pass that does not increase the capacity.
\<close>

fun growth_run :: "nat \<Rightarrow> int64 \<Rightarrow> int64 \<times> int64 \<Rightarrow> (int64 \<times> int64) option" where
  "growth_run 0 target s = Some s"
| "growth_run (Suc n) target s =
     (if fst s <s target then growth_run n target (growth_body s) else None)"

fun increasing_run :: "nat \<Rightarrow> int64 \<times> int64 \<Rightarrow> (int64 \<times> int64) option" where
  "increasing_run 0 s = Some s"
| "increasing_run (Suc n) s =
     (if fst s <s fst (growth_body s) then increasing_run n (growth_body s) else None)"

definition max_int64 :: int64 where
  "max_int64 = 9223372036854775807"

text \<open>The capacity after 175 passes, the last one of the sequence below \<open>2^63\<close>.\<close>

definition last_cap :: int64 where
  "last_cap = 8004081716634758290"

text \<open>
  The new capacity as a function of the old one on the integers, before it is
  cut to 64 bits; and the capacities from which the loop can come to the
  capacity \<open>2^63 - 1\<close>, that capacity included.
\<close>

definition growth_int :: "int \<Rightarrow> int" where
  "growth_int x = (if x = 0 then 1 else if x < 1024 then 2 * x else x + x div 4)"

definition bad_caps :: "int64 set" where
  "bad_caps = {9223372036854775807, 7378697629483820646, - 5534023222112865485,
     5902958103587056517, 4722366482869645214, - 6862188795419953201}"

subsection \<open>Counted loops, slices and panics\<close>

text \<open>
  \<open>for i := i0; i < count; i++ { s = body i s }\<close> on the state \<open>s\<close> of the
  variables the body assigns. A slice is the list of its elements; its capacity
  is never read by the measurement functions.

  \<open>make_slice elemsize zero len cap\<close> is \<open>make([]T, len, cap)\<close> for an element
  type of \<open>elemsize\<close> bytes with zero value \<open>zero\<close> (and \<open>make([]T, len)\<close> when
  \<open>cap = len\<close>), with the checks of the runtime's \<open>makeslice\<close>: the request is
  refused when \<open>elemsize * cap\<close>, the capacity read as unsigned, overflows or
  exceeds \<open>maxAlloc\<close>, when the length is negative and when it exceeds the
  capacity; the panic names the length if the length alone is refused, and the
  capacity otherwise. \<open>maxAlloc\<close> is the size of the heap address space, \<open>2^48\<close>
  bytes on the 64-bit host. Below that bound the memory of the host is not
  limited in this model, and \<open>append\<close> always finds room to grow.
\<close>

function for_loop :: "int64 \<Rightarrow> int64 \<Rightarrow> (int64 \<Rightarrow> 's \<Rightarrow> 's) \<Rightarrow> 's \<Rightarrow> 's" where
  "for_loop count i body s =
     (if i <s count then for_loop count (i + 1) body (body i s) else s)"
  by pat_completeness auto
termination
proof (relation "measure (\<lambda>(count, i, body, s). nat (sint count - sint i))")
  show "wf (measure (\<lambda>(count :: int64, i :: int64, body :: int64 \<Rightarrow> 's \<Rightarrow> 's, s :: 's).
              nat (sint count - sint i)))"
    by simp
next
  fix count i :: int64 and body :: "int64 \<Rightarrow> 's \<Rightarrow> 's" and s :: 's
  assume "i <s count"
  then have lt: "sint i < sint count"
    by (simp add: word_sless_alt)
  moreover have "sint count < 2 ^ 63" using sint_lt [of count] by simp
  moreover have "- (2 ^ 63) \<le> sint i" using sint_ge [of i] by simp
  ultimately have "signed_take_bit 63 (sint i + 1) = sint i + 1"
    by (simp add: signed_take_bit_int_eq_self)
  then have "sint (i + 1) = sint i + 1"
    by (simp add: sint_word_ariths)
  with lt show "((count, i + 1, body, body i s), (count, i, body, s))
      \<in> measure (\<lambda>(count, i, body, s). nat (sint count - sint i))"
    by simp
qed

declare for_loop.simps [simp del]

datatype panic = MakeSliceLenOutOfRange | MakeSliceCapOutOfRange | IndexOutOfRange

definition maxAlloc :: int where
  "maxAlloc = 2 ^ 48"

definition too_large :: "nat \<Rightarrow> int64 \<Rightarrow> bool" where
  "too_large elemsize n = (maxAlloc < int elemsize * uint n)"

definition make_slice :: "nat \<Rightarrow> 'a \<Rightarrow> int64 \<Rightarrow> int64 \<Rightarrow> panic + 'a list" where
  "make_slice elemsize zero len cap =
     (if too_large elemsize cap \<or> len <s 0 \<or> cap <s len then
        (if too_large elemsize len \<or> len <s 0 then Inl MakeSliceLenOutOfRange
         else Inl MakeSliceCapOutOfRange)
      else Inr (replicate (nat (sint len)) zero))"

definition go_len :: "'a list \<Rightarrow> int64" where
  "go_len xs = word_of_nat (length xs)"

subsection \<open>The three measurement functions of Day 2\<close>

text \<open>
  \<open>since\<close> is the value \<open>time.Since(start)\<close> returns on the run: the only input
  of a measurement function besides \<open>count\<close>. Each \<open>_run\<close> function gives the
  final values of the local variables (elapsed time, \<open>allocations\<close>, \<open>data\<close>);
  the Go function returns the first two. An \<open>int\<close> takes 8 bytes.
\<close>

definition benchmarkNaiveAppend_run :: "Duration \<Rightarrow> int64 \<Rightarrow> Duration \<times> int64 \<times> int64 list" where
  "benchmarkNaiveAppend_run since count =
     (let allocations = 0; data = [];
          (data, allocations) =
             for_loop count 0 (\<lambda>i (data, allocations). (data @ [i], allocations + 1))
               (data, allocations)
      in (since, allocations, data))"

definition benchmarkNaiveAppend :: "Duration \<Rightarrow> int64 \<Rightarrow> Duration \<times> int64" where
  "benchmarkNaiveAppend since count =
     (case benchmarkNaiveAppend_run since count of (elapsed, allocations, data) \<Rightarrow>
        (elapsed, allocations))"

definition benchmarkWithMake_run ::
  "Duration \<Rightarrow> int64 \<Rightarrow> panic + Duration \<times> int64 \<times> int64 list" where
  "benchmarkWithMake_run since count =
     (let allocations = 1 in
      case make_slice 8 0 0 count of
        Inl p \<Rightarrow> Inl p
      | Inr data \<Rightarrow>
          Inr (since, allocations, for_loop count 0 (\<lambda>i data. data @ [i]) data))"

definition benchmarkWithMake :: "Duration \<Rightarrow> int64 \<Rightarrow> panic + Duration \<times> int64" where
  "benchmarkWithMake since count =
     (case benchmarkWithMake_run since count of
        Inl p \<Rightarrow> Inl p
      | Inr (elapsed, allocations, data) \<Rightarrow> Inr (elapsed, allocations))"

text \<open>
  \<open>xs[i] = f i\<close> checks the index; the state of a loop of such assignments is
  the slice, or the panic that ended the run, after which no assignment is made.
\<close>

definition store_at :: "(int64 \<Rightarrow> 'a) \<Rightarrow> int64 \<Rightarrow> panic + 'a list \<Rightarrow> panic + 'a list" where
  "store_at f i st =
     (case st of
        Inl p \<Rightarrow> Inl p
      | Inr xs \<Rightarrow>
          if 0 \<le>s i \<and> nat (sint i) < length xs then Inr (xs[nat (sint i) := f i])
          else Inl IndexOutOfRange)"

definition index_slice :: "'a list \<Rightarrow> int64 \<Rightarrow> panic + 'a" where
  "index_slice xs i =
     (if 0 \<le>s i \<and> nat (sint i) < length xs then Inr (xs ! nat (sint i))
      else Inl IndexOutOfRange)"

definition benchmarkFixedArray_run ::
  "Duration \<Rightarrow> int64 \<Rightarrow> panic + Duration \<times> int64 \<times> int64 list" where
  "benchmarkFixedArray_run since count =
     (let allocations = 1 in
      case make_slice 8 0 count count of
        Inl p \<Rightarrow> Inl p
      | Inr data \<Rightarrow>
          (case for_loop count 0 (store_at (\<lambda>i. i)) (Inr data) of
             Inl p \<Rightarrow> Inl p
           | Inr data \<Rightarrow> Inr (since, allocations, data)))"

definition benchmarkFixedArray :: "Duration \<Rightarrow> int64 \<Rightarrow> panic + Duration \<times> int64" where
  "benchmarkFixedArray since count =
     (case benchmarkFixedArray_run since count of
        Inl p \<Rightarrow> Inl p
      | Inr (elapsed, allocations, data) \<Rightarrow> Inr (elapsed, allocations))"

section \<open>Day 1: struct layout\<close>

subsection \<open>Sizes and offsets\<close>

text \<open>
  \<open>unsafe.Sizeof\<close> and \<open>unsafe.Offsetof\<close> on the 64-bit host: the size and
  alignment of each field type, every field at the next multiple of its
  alignment, and the size of the struct rounded up to the largest alignment
  among its fields. A \<open>string\<close> is a pointer and a length, 16 bytes aligned to 8.
\<close>

datatype go_type = Int32 | Int8 | Bool | String

fun type_size :: "go_type \<Rightarrow> nat" where
  "type_size Int32 = 4"
| "type_size Int8 = 1"
| "type_size Bool = 1"
| "type_size String = 16"

fun type_align :: "go_type \<Rightarrow> nat" where
  "type_align Int32 = 4"
| "type_align Int8 = 1"
| "type_align Bool = 1"
| "type_align String = 8"

definition align_up :: "nat \<Rightarrow> nat \<Rightarrow> nat" where
  "align_up off a = ((off + a - 1) div a) * a"

text \<open>The offsets of the fields laid out from offset \<open>off\<close>, and the offset after the last.\<close>

fun struct_layout :: "nat \<Rightarrow> (string \<times> go_type) list \<Rightarrow> (string \<times> nat) list \<times> nat" where
  "struct_layout off [] = ([], off)"
| "struct_layout off ((name, t) # fields) =
     (let start = align_up off (type_align t);
          (offsets, end) = struct_layout (start + type_size t) fields
      in ((name, start) # offsets, end))"

definition struct_align :: "(string \<times> go_type) list \<Rightarrow> nat" where
  "struct_align fields = fold (\<lambda>(name, t) a. max a (type_align t)) fields 1"

definition Sizeof :: "(string \<times> go_type) list \<Rightarrow> nat" where
  "Sizeof fields = align_up (snd (struct_layout 0 fields)) (struct_align fields)"

definition Offsetof :: "(string \<times> go_type) list \<Rightarrow> string \<Rightarrow> nat option" where
  "Offsetof fields name = map_of (fst (struct_layout 0 fields)) name"

definition BadUser_fields :: "(string \<times> go_type) list" where
  "BadUser_fields = [(''ID'', Int32), (''Active'', Bool), (''Name'', String), (''Age'', Int8)]"

definition GoodUser_fields :: "(string \<times> go_type) list" where
  "GoodUser_fields = [(''ID'', Int32), (''Age'', Int8), (''Active'', Bool), (''Name'', String)]"

record BadUser =
  ID :: "32 word"
  Active :: bool
  Name :: string
  Age :: "8 word"

record GoodUser =
  ID :: "32 word"
  Age :: "8 word"
  Active :: bool
  Name :: string

subsection \<open>benchmarkBadUser and benchmarkGoodUser\<close>

text \<open>\<open>%d\<close> of \<open>fmt.Sprintf\<close>: the decimal digits, with a sign for a negative number.\<close>

function show_digits :: "int \<Rightarrow> string" where
  "show_digits n =
     (if n < 10 then [char_of (48 + n)]
      else show_digits (n div 10) @ [char_of (48 + n mod 10)])"
  by pat_completeness auto
termination
  by (relation "measure nat") auto

declare show_digits.simps [simp del]

definition show_int :: "int \<Rightarrow> string" where
  "show_int k = (if k < 0 then CHR ''-'' # show_digits (- k) else show_digits k)"

definition user_name :: "int64 \<Rightarrow> string" where
  "user_name i = ''User_'' @ show_int (sint i) @ ''_Test_Name_That_Is_Long''"

definition new_BadUser :: "int64 \<Rightarrow> BadUser" where
  "new_BadUser i =
     \<lparr>BadUser.ID = ucast i,
      BadUser.Active = (go_mod i 2 = 0),
      BadUser.Name = user_name i,
      BadUser.Age = ucast (go_mod i 100)\<rparr>"

definition new_GoodUser :: "int64 \<Rightarrow> GoodUser" where
  "new_GoodUser i =
     \<lparr>GoodUser.ID = ucast i,
      GoodUser.Age = ucast (go_mod i 100),
      GoodUser.Active = (go_mod i 2 = 0),
      GoodUser.Name = user_name i\<rparr>"

definition zero_BadUser :: BadUser where
  "zero_BadUser =
     \<lparr>BadUser.ID = 0, BadUser.Active = False, BadUser.Name = [], BadUser.Age = 0\<rparr>"

definition zero_GoodUser :: GoodUser where
  "zero_GoodUser =
     \<lparr>GoodUser.ID = 0, GoodUser.Age = 0, GoodUser.Active = False, GoodUser.Name = []\<rparr>"

text \<open>
  As on Day 2, \<open>_run\<close> gives the final values of the local variables
  \<open>elapsed\<close>, \<open>totalMemory\<close> and \<open>users\<close>, and the Go function returns the first
  two. \<open>totalMemory\<close> is a \<open>uintptr\<close> product and wraps around.
\<close>

definition benchmarkBadUser_run ::
  "Duration \<Rightarrow> int64 \<Rightarrow> panic + Duration \<times> uintptr \<times> BadUser list" where
  "benchmarkBadUser_run since count =
     (case make_slice (Sizeof BadUser_fields) zero_BadUser 0 count of
        Inl p \<Rightarrow> Inl p
      | Inr users \<Rightarrow>
          (let users = for_loop count 0 (\<lambda>i users. users @ [new_BadUser i]) users;
               elapsed = since;
               totalMemory = word_of_nat (Sizeof BadUser_fields) * go_len users
           in Inr (elapsed, totalMemory, users)))"

definition benchmarkBadUser :: "Duration \<Rightarrow> int64 \<Rightarrow> panic + Duration \<times> uintptr" where
  "benchmarkBadUser since count =
     (case benchmarkBadUser_run since count of
        Inl p \<Rightarrow> Inl p
      | Inr (elapsed, totalMemory, users) \<Rightarrow> Inr (elapsed, totalMemory))"

definition benchmarkGoodUser_run ::
  "Duration \<Rightarrow> int64 \<Rightarrow> panic + Duration \<times> uintptr \<times> GoodUser list" where
  "benchmarkGoodUser_run since count =
     (case make_slice (Sizeof GoodUser_fields) zero_GoodUser 0 count of
        Inl p \<Rightarrow> Inl p
      | Inr users \<Rightarrow>
          (let users = for_loop count 0 (\<lambda>i users. users @ [new_GoodUser i]) users;
               elapsed = since;
               totalMemory = word_of_nat (Sizeof GoodUser_fields) * go_len users
           in Inr (elapsed, totalMemory, users)))"

definition benchmarkGoodUser :: "Duration \<Rightarrow> int64 \<Rightarrow> panic + Duration \<times> uintptr" where
  "benchmarkGoodUser since count =
     (case benchmarkGoodUser_run since count of
        Inl p \<Rightarrow> Inl p
      | Inr (elapsed, totalMemory, users) \<Rightarrow> Inr (elapsed, totalMemory))"

section \<open>Floating point\<close>

text \<open>
  A finite \<open>float64\<close> is the rational number it denotes. Every operation is
  the exact operation followed by \<open>fl\<close>, rounding to the nearest number with a
  53-bit significand, ties to the even significand (the binary64 format, with
  its gradual underflow below \<open>2^-1022\<close>). \<open>binade x\<close> is the exponent \<open>e\<close>
  with \<open>2^e \<le> |x| < 2^(e+1)\<close>. Infinities and NaN are outside the model: the
  cost projections below divide by non-zero constants only, and their values
  stay far below \<open>2^1024\<close>.
\<close>

type_synonym float64 = rat

function ilog2 :: "int \<Rightarrow> int" where
  "ilog2 n = (if n < 2 then 0 else 1 + ilog2 (n div 2))"
  by pat_completeness auto
termination
  by (relation "measure nat") auto

declare ilog2.simps [simp del]

definition pow2 :: "int \<Rightarrow> rat" where
  "pow2 e = (if 0 \<le> e then 2 ^ nat e else 1 / 2 ^ nat (- e))"

definition binade :: "rat \<Rightarrow> int" where
  "binade x =
     (let a = \<bar>x\<bar> in
      if 1 \<le> a then ilog2 \<lfloor>a\<rfloor>
      else - (1 + ilog2 (\<lceil>1 / a\<rceil> - 1)))"

definition round_even :: "rat \<Rightarrow> int" where
  "round_even r =
     (let f = \<lfloor>r\<rfloor>; d = r - of_int f in
      if d < 1 / 2 then f
      else if 1 / 2 < d then f + 1
      else if even f then f else f + 1)"

definition fl :: "rat \<Rightarrow> float64" where
  "fl x =
     (if x = 0 then 0
      else let q = pow2 (max (binade x) (- 1022) - 52)
           in of_int (round_even (x / q)) * q)"

definition fmul :: "float64 \<Rightarrow> float64 \<Rightarrow> float64" where
  "fmul a b = fl (a * b)"

definition fdiv :: "float64 \<Rightarrow> float64 \<Rightarrow> float64" where
  "fdiv a b = fl (a / b)"

definition fsub :: "float64 \<Rightarrow> float64 \<Rightarrow> float64" where
  "fsub a b = fl (a - b)"

text \<open>A constant of the source, and the conversions \<open>float64(x)\<close> of integers.\<close>

definition float64_lit :: "rat \<Rightarrow> float64" where
  "float64_lit r = fl r"

definition float64_of_int64 :: "int64 \<Rightarrow> float64" where
  "float64_of_int64 x = fl (of_int (sint x))"

definition float64_of_uintptr :: "uintptr \<Rightarrow> float64" where
  "float64_of_uintptr x = fl (of_int (uint x))"

section \<open>Cost projections\<close>

text \<open>
  A cost projection prints its figures; its value here is the list of the
  printed figures, each under the label of its line, in the order of the
  lines. The two percentages that Day 2 prints before its assumptions are
  quotients by a measured quantity that may be zero; they are no dollar figures
  and are left out. The scaling lines of Day 1 use the verb \<open>%,d\<close>, which
  \<open>fmt\<close> does not know: it prints \<open>%!,(int=1000000)\<close> for the user count and
  goes on with \<open>d users\<close>, and that text is the label of the line.
\<close>

type_synonym figures = "(string \<times> float64) list"

subsection \<open>Day 1: calculateCostImpact(beforeMem, afterMem)\<close>

definition calculateCostImpact_day01 :: "uintptr \<Rightarrow> uintptr \<Rightarrow> figures" where
  "calculateCostImpact_day01 beforeMem afterMem =
     (let memorySavedMB = fdiv (float64_of_uintptr (beforeMem - afterMem)) (float64_lit (1024 * 1024));
          awsT3MediumCost = float64_lit 30;
          awsRAMPerInstance = float64_lit 8;
          costPerGBMonth = fdiv awsT3MediumCost awsRAMPerInstance;
          monthlySavings = fmul (fdiv memorySavedMB (float64_lit 1024)) costPerGBMonth;
          userCounts = [1000000, 10000000, 100000000, 1000000000]
      in [(''t3.medium instance'', awsT3MediumCost),
          (''Cost per GB-month'', costPerGBMonth),
          (''Memory saved'', memorySavedMB),
          (''Monthly savings'', monthlySavings),
          (''Annual savings'', fmul monthlySavings (float64_lit 12))]
         @ map (\<lambda>users. (''%!,(int='' @ show_int (sint users) @ '')d users'',
                   fdiv (fmul monthlySavings (float64_of_int64 users)) (float64_lit 1000000)))
             userCounts)"

subsection \<open>Day 2: calculateCostImpact(t1, t2, alloc1, alloc2)\<close>

definition calculateCostImpact_day02 ::
  "Duration \<Rightarrow> Duration \<Rightarrow> int64 \<Rightarrow> int64 \<Rightarrow> figures" where
  "calculateCostImpact_day02 t1 t2 alloc1 alloc2 =
     (let timeSavedNs = t1 - t2;
          allocSaved = alloc1 - alloc2;
          requestsPerSecond = float64_lit 100;
          requestsPerDay = fmul (fmul requestsPerSecond (float64_lit 3600)) (float64_lit 24);
          awsCostPerVCPUHour = float64_lit (416 / 10000);
          msSavedPerRequest = fdiv (float64_of_int64 timeSavedNs) (float64_lit 1000000);
          cpuSecondsSavedPerRequest = fdiv (float64_of_int64 timeSavedNs) (float64_lit 1000000000);
          cpuHoursSavedPerDay =
             fdiv (fmul cpuSecondsSavedPerRequest requestsPerDay) (float64_lit 3600);
          dailySavings = fmul cpuHoursSavedPerDay awsCostPerVCPUHour;
          monthlySavings = fmul dailySavings (float64_lit 30);
          annualSavings = fmul monthlySavings (float64_lit 12)
      in [(''Requests per second'', requestsPerSecond),
          (''AWS t3.medium'', awsCostPerVCPUHour),
          (''Time saved per request'', msSavedPerRequest),
          (''CPU time saved per day'', cpuHoursSavedPerDay),
          (''Daily savings'', dailySavings),
          (''Monthly savings'', monthlySavings),
          (''Annual savings'', annualSavings)])"

subsection \<open>Day 3: calculateMapCostImpact()\<close>

definition calculateMapCostImpact :: figures where
  "calculateMapCostImpact =
     (let mapEntryOverhead = float64_lit 50;
          sliceEntryOverhead = float64_lit 16;
          entries = float64_lit 1000000;
          awsCostPerGBMonth = float64_lit (375 / 100);
          mapMemoryGB = fdiv (fmul entries mapEntryOverhead) (float64_lit (1024 * 1024 * 1024));
          mapCost = fmul mapMemoryGB awsCostPerGBMonth;
          sliceMemoryGB = fdiv (fmul entries sliceEntryOverhead) (float64_lit (1024 * 1024 * 1024));
          sliceCost = fmul sliceMemoryGB awsCostPerGBMonth;
          savingsGB = fsub mapMemoryGB sliceMemoryGB;
          savingsCost = fsub mapCost sliceCost
      in [(''Map[int]string'', mapMemoryGB),
          (''Slice of structs'', sliceMemoryGB),
          (''Map overhead'', savingsGB),
          (''Map overhead factor'', fdiv mapMemoryGB sliceMemoryGB),
          (''Map cost'', mapCost),
          (''Slice cost'', sliceCost),
          (''Monthly savings'', savingsCost),
          (''Annual savings'', fmul savingsCost (float64_lit 12))])"

section \<open>Day 3: lookup by binary search\<close>

text \<open>
  \<open>Benchmark_SliceLookupBinarySearch\<close> prepares a slice of 1000 entries with
  \<open>slice[i].Key = i\<close> and then, for \<open>i\<close> from 0 to \<open>b.N - 1\<close>, searches the key
  \<open>i % 1000\<close> between \<open>low = 0\<close> and \<open>high = len(slice) - 1\<close>. The search loop is
  not known in advance to end: a run that never leaves it has the value \<open>None\<close>.
  It ends with the value of \<open>found\<close>, or with the panic of an index out of range.
  An \<open>entry\<close> is an \<open>int\<close> and a \<open>string\<close>, 24 bytes.
\<close>

record entry =
  Key :: int64
  Value :: string

definition zero_entry :: entry where
  "zero_entry = \<lparr>Key = 0, Value = []\<rparr>"

definition lookup_slice :: "panic + entry list" where
  "lookup_slice =
     (case make_slice 24 zero_entry 1000 1000 of
        Inl p \<Rightarrow> Inl p
      | Inr slice' \<Rightarrow>
          for_loop 1000 0 (store_at (\<lambda>i. \<lparr>Key = i, Value = ''value''\<rparr>)) (Inr slice'))"

partial_function (option) binary_search_loop ::
  "entry list \<Rightarrow> int64 \<Rightarrow> int64 \<Rightarrow> int64 \<Rightarrow> string \<Rightarrow> (panic + string) option" where
  "binary_search_loop slice' key low high found =
     (if low \<le>s high then
        (let mid = go_div (low + high) 2 in
         case index_slice slice' mid of
           Inl p \<Rightarrow> Some (Inl p)
         | Inr e \<Rightarrow>
             if Key e = key then Some (Inr (Value e))
             else if Key e <s key then binary_search_loop slice' key (mid + 1) high found
             else binary_search_loop slice' key low (mid - 1) found)
      else Some (Inr found))"

declare binary_search_loop.simps [code]

definition binary_search_iteration :: "entry list \<Rightarrow> int64 \<Rightarrow> string \<Rightarrow> (panic + string) option" where
  "binary_search_iteration slice' i found =
     (let key = go_mod i 1000; low = 0; high = go_len slice' - 1
      in binary_search_loop slice' key low high found)"

text \<open>
  A slice with the keys of the benchmark's slice and a value of its own in
  every entry, the decimal digits of the key, so that the value returned tells
  which entry was read.
\<close>

definition numbered_entries :: "entry list" where
  "numbered_entries =
     map (\<lambda>k. \<lparr>Key = word_of_nat k, Value = show_int (int k)\<rparr>) [0..<1000]"

section \<open>Properties\<close>

subsection \<open>The growth law of calculateGrowth\<close>

text \<open>
  Claim C1. The growth law is a function of the capacity alone: from capacity 0
  the first step gives capacity 1, a non-zero capacity below 1024 is doubled, a
  capacity of 1024 or more becomes \<open>cap + cap/4\<close>; and \<open>calculateGrowth\<close>
  ends with capacity 1 for target 1, 4 for target 3, 16 for target 9 and 1280
  for target 1025.
\<close>

theorem calculateGrowth_law:
  "fst (growth_body (0, r)) = 1
   \<and> (\<forall>cap r. cap \<noteq> 0 \<and> cap <s 1024 \<longrightarrow> fst (growth_body (cap, r)) = cap * 2)
   \<and> (\<forall>cap r. 1024 \<le>s cap \<longrightarrow> fst (growth_body (cap, r)) = cap + go_div cap 4)
   \<and> calculateGrowth 1 = Some (1, 0, 0)
   \<and> calculateGrowth 3 = Some (4, 2, 1)
   \<and> calculateGrowth 9 = Some (16, 4, 7)
   \<and> calculateGrowth 1025 = Some (1280, 11, 255)"
proof -
  have step0: "fst (growth_body (0, r)) = 1"
    by (simp add: growth_body_def)
  have dbl: "\<forall>cap r. cap \<noteq> 0 \<and> cap <s 1024 \<longrightarrow> fst (growth_body (cap, r)) = cap * 2"
    by (simp add: growth_body_def Let_def)
  have quarter: "\<forall>cap r. 1024 \<le>s cap \<longrightarrow> fst (growth_body (cap, r)) = cap + go_div cap 4"
    by (auto simp: growth_body_def Let_def word_sle_eq word_sless_alt)
  have c1: "calculateGrowth 1 = Some (1, 0, 0)" by code_simp
  have c3: "calculateGrowth 3 = Some (4, 2, 1)" by code_simp
  have c9: "calculateGrowth 9 = Some (16, 4, 7)" by code_simp
  have c1025: "calculateGrowth 1025 = Some (1280, 11, 255)" by code_simp
  from step0 dbl quarter c1 c3 c9 c1025 show ?thesis
    by blast
qed

theorem calculateGrowth_law_witness:
  "((512::int64) \<noteq> 0 \<and> (512::int64) <s 1024)
   \<and> fst (growth_body (512, 9)) = 1024
   \<and> (1024::int64) \<le>s 1024
   \<and> fst (growth_body (1024, 10)) = 1280"
proof -
  have h1: "(512::int64) \<noteq> 0 \<and> (512::int64) <s 1024"
    by (simp add: word_sless_alt)
  have h2: "(1024::int64) \<le>s 1024"
    by simp
  have g: "go_div 1024 4 = 256"
    by (simp add: go_div_def signed_divide_int_def)
  from calculateGrowth_law [of 0] h1 have "fst (growth_body (512, 9)) = 512 * 2"
    by blast
  moreover from calculateGrowth_law [of 0] h2
  have "fst (growth_body (1024, 10)) = 1024 + go_div 1024 4"
    by blast
  ultimately show ?thesis using h1 h2 g
    by simp
qed

subsection \<open>Termination of calculateGrowth\<close>

lemma growth_run_loop:
  "growth_run n target s = Some s' \<Longrightarrow> growth_loop target s = growth_loop target s'"
proof (induction n arbitrary: s)
  case 0
  then show ?case by simp
next
  case (Suc n)
  then show ?case
    by (auto simp: growth_loop.simps [of target s] split: if_splits)
qed

lemma growth_loop_exit:
  "growth_loop target s = Some s' \<Longrightarrow> \<not> fst s' <s target"
  by (rule growth_loop.raw_induct [where P = "\<lambda>t s s'. \<not> fst s' <s t"])
    (auto split: if_splits)

text \<open>The first 175 passes from capacity 0 increase the capacity, up to \<open>last_cap\<close>.\<close>

lemma increasing_175: "increasing_run 175 (0, 0) = Some (last_cap, 174)"
  unfolding last_cap_def by code_simp

text \<open>With a target not above the end of an increasing walk, the loop ends.\<close>

lemma increasing_run_terminates:
  "increasing_run n s = Some e \<Longrightarrow> target \<le>s fst e \<Longrightarrow> \<exists>s'. growth_loop target s = Some s'"
proof (induction n arbitrary: s)
  case 0
  then have "\<not> fst s <s target" by (auto simp: word_sle_eq word_sless_alt)
  then show ?case by (simp add: growth_loop.simps [of target s])
next
  case (Suc n)
  from Suc.prems(1) have "increasing_run n (growth_body s) = Some e"
    by (simp split: if_splits)
  from Suc.IH [OF this Suc.prems(2)]
  obtain s' where "growth_loop target (growth_body s) = Some s'"
    by blast
  then show ?case by (simp add: growth_loop.simps [of target s])
qed

text \<open>A state the loop reaches and leaves again lies on the walk, before its end.\<close>

lemma growth_run_increases:
  "increasing_run n s = Some e \<Longrightarrow> growth_run k target s = Some u \<Longrightarrow> fst u <s target \<Longrightarrow>
   target \<le>s fst e \<Longrightarrow> fst u <s fst (growth_body u)"
proof (induction n arbitrary: s k)
  case 0
  then have se: "s = e" by simp
  show ?case
  proof (cases k)
    case 0
    with "0.prems" se show ?thesis by (auto simp: word_sle_eq word_sless_alt)
  next
    case (Suc j)
    with "0.prems" se show ?thesis by (auto simp: word_sle_eq word_sless_alt split: if_splits)
  qed
next
  case (Suc n)
  from Suc.prems(1) have a: "fst s <s fst (growth_body s)"
    and b: "increasing_run n (growth_body s) = Some e"
    by (simp_all split: if_splits)
  show ?case
  proof (cases k)
    case 0
    with Suc.prems(2) a show ?thesis by simp
  next
    case (Suc j)
    with Suc.prems(2) have "growth_run j target (growth_body s) = Some u"
      by (simp split: if_splits)
    from Suc.IH [OF b this Suc.prems(3) Suc.prems(4)] show ?thesis .
  qed
qed

lemma increasing_run_mono:
  "increasing_run n s = Some e \<Longrightarrow> fst s \<le>s fst e"
proof (induction n arbitrary: s)
  case 0
  then show ?case by simp
next
  case (Suc n)
  from Suc.prems have a: "fst s <s fst (growth_body s)"
    and b: "increasing_run n (growth_body s) = Some e"
    by (simp_all split: if_splits)
  from Suc.IH [OF b] a show ?case by (simp add: word_sle_eq word_sless_alt)
qed

text \<open>With a target above the end of an increasing walk, the loop follows the walk.\<close>

lemma increasing_run_below:
  "increasing_run n s = Some e \<Longrightarrow> fst e <s target \<Longrightarrow> growth_run n target s = Some e"
proof (induction n arbitrary: s)
  case 0
  then show ?case by simp
next
  case (Suc n)
  from Suc.prems(1) have a: "fst s <s fst (growth_body s)"
    and b: "increasing_run n (growth_body s) = Some e"
    by (simp_all split: if_splits)
  from increasing_run_mono [OF b] a Suc.prems(2) have "fst s <s target"
    by (simp add: word_sle_eq word_sless_alt)
  with Suc.IH [OF b Suc.prems(2)] show ?case by simp
qed

lemma last_cap_wraps:
  "growth_body (last_cap, 174) = (- 8441641927916103754, 175)"
  "(- 8441641927916103754 :: int64) <s last_cap"
  unfolding last_cap_def by code_simp+

lemma ends_above_last_cap:
  "calculateGrowth (last_cap + 1) = Some (8488947664685829290, 200, 484865948051070999)"
  unfolding last_cap_def by code_simp

text \<open>
  The loop with the target \<open>2^63 - 1\<close> leaves only at that capacity. A capacity
  that leads there in one pass is found from the new capacity: half of it, or
  the one number \<open>x\<close> with \<open>x + x div 4\<close> equal to it. Going back from
  \<open>2^63 - 1\<close> in this way ends after the six capacities of \<open>bad_caps\<close>.
\<close>

lemma growth_body_int:
  "fst (growth_body (c, r)) = word_of_int (growth_int (sint c))"
proof -
  have z: "(sint c = 0) = (c = 0)"
    using signed_word_eqI [of c 0] by auto
  have l: "(c <s 1024) = (sint c < 1024)"
    by (simp add: word_sless_alt)
  have d: "1024 \<le> sint c \<Longrightarrow> go_div c 4 = word_of_int (sint c div 4)"
    by (simp add: go_div_def signed_divide_int_def sgn_if)
  show ?thesis
    using d by (auto simp: growth_body_def growth_int_def Let_def z l)
qed

lemma uint_of_int64: "word_of_int y = (w :: int64) \<Longrightarrow> y mod 2 ^ 64 = uint w"
  by (auto simp: uint_word_of_int_eq take_bit_eq_mod)

lemma growth_int_mod:
  assumes "- (2 ^ 63) \<le> x" "x < 2 ^ 63"
  shows "growth_int x mod 2 ^ 64 =
     (if x = 0 then 1 else if x < 0 then 2 * x + 2 ^ 64
      else if x < 1024 then 2 * x else x + x div 4)"
proof -
  consider "x = 0" | "x < 0" | "0 < x" "x < 1024" | "1024 \<le> x" by linarith
  then show ?thesis
  proof cases
    case 1
    then show ?thesis by (simp add: growth_int_def)
  next
    case 2
    with assms have "0 \<le> 2 * x + 2 ^ 64" "2 * x + 2 ^ 64 < (2 ^ 64 :: int)" by simp_all
    then have "(2 * x + 2 ^ 64) mod 2 ^ 64 = 2 * x + 2 ^ 64" by (rule mod_pos_pos_trivial)
    moreover have "(2 * x) mod 2 ^ 64 = (2 * x + 2 ^ 64) mod (2 ^ 64 :: int)" by simp
    ultimately have "(2 * x) mod 2 ^ 64 = 2 * x + 2 ^ 64" by (simp only:)
    with 2 show ?thesis by (simp add: growth_int_def)
  next
    case 3
    then have "0 \<le> 2 * x" "2 * x < (2 ^ 64 :: int)" by simp_all
    then have "(2 * x) mod 2 ^ 64 = 2 * x" by (rule mod_pos_pos_trivial)
    with 3 show ?thesis by (simp add: growth_int_def)
  next
    case 4
    with assms have "0 \<le> x + x div 4" "x + x div 4 < 2 ^ 64" by simp_all
    then have "(x + x div 4) mod 2 ^ 64 = x + x div 4" by (rule mod_pos_pos_trivial)
    with 4 show ?thesis by (simp add: growth_int_def)
  qed
qed

lemma growth_int_preimage:
  assumes "- (2 ^ 63) \<le> x" "x < 2 ^ 63"
  shows "growth_int x mod 2 ^ 64 = 9223372036854775807 \<Longrightarrow> x = 7378697629483820646"
    and "growth_int x mod 2 ^ 64 = 7378697629483820646 \<Longrightarrow>
           x = - 5534023222112865485 \<or> x = 5902958103587056517"
    and "growth_int x mod 2 ^ 64 = 12912720851596686131 \<Longrightarrow> False"
    and "growth_int x mod 2 ^ 64 = 5902958103587056517 \<Longrightarrow> x = 4722366482869645214"
    and "growth_int x mod 2 ^ 64 = 4722366482869645214 \<Longrightarrow> x = - 6862188795419953201"
    and "growth_int x mod 2 ^ 64 = 11584555278289598415 \<Longrightarrow> False"
  unfolding growth_int_mod [OF assms] using assms
  by (simp_all split: if_splits) arith+


lemma bad_caps_closed:
  assumes "fst (growth_body (c, r)) \<in> bad_caps"
  shows "c \<in> bad_caps"
proof -
  let ?x = "sint c"
  have lo: "- (2 ^ 63) \<le> ?x" using sint_ge [of c] by simp
  have hi: "?x < 2 ^ 63" using sint_lt [of c] by simp
  note pre = growth_int_preimage [OF lo hi]
  have eq: "c = w" if "?x = sint w" for w :: int64
    using that by (rule signed_word_eqI)
  from assms have "word_of_int (growth_int ?x) \<in> bad_caps"
    by (simp add: growth_body_int)
  then consider
      "word_of_int (growth_int ?x) = (9223372036854775807 :: int64)"
    | "word_of_int (growth_int ?x) = (7378697629483820646 :: int64)"
    | "word_of_int (growth_int ?x) = (- 5534023222112865485 :: int64)"
    | "word_of_int (growth_int ?x) = (5902958103587056517 :: int64)"
    | "word_of_int (growth_int ?x) = (4722366482869645214 :: int64)"
    | "word_of_int (growth_int ?x) = (- 6862188795419953201 :: int64)"
    by (auto simp: bad_caps_def)
  then show ?thesis
  proof cases
    case 1
    from uint_of_int64 [OF 1] have "growth_int ?x mod 2 ^ 64 = 9223372036854775807" by simp
    then have "?x = 7378697629483820646" by (rule pre(1))
    then have "c = 7378697629483820646" by (intro eq) simp
    then show ?thesis by (simp add: bad_caps_def)
  next
    case 2
    from uint_of_int64 [OF 2] have "growth_int ?x mod 2 ^ 64 = 7378697629483820646" by simp
    then have "?x = - 5534023222112865485 \<or> ?x = 5902958103587056517" by (rule pre(2))
    then have "c = - 5534023222112865485 \<or> c = 5902958103587056517"
      by (auto intro!: eq)
    then show ?thesis by (auto simp: bad_caps_def)
  next
    case 3
    from uint_of_int64 [OF 3] have "growth_int ?x mod 2 ^ 64 = 12912720851596686131" by simp
    then have False by (rule pre(3))
    then show ?thesis ..
  next
    case 4
    from uint_of_int64 [OF 4] have "growth_int ?x mod 2 ^ 64 = 5902958103587056517" by simp
    then have "?x = 4722366482869645214" by (rule pre(4))
    then have "c = 4722366482869645214" by (intro eq) simp
    then show ?thesis by (simp add: bad_caps_def)
  next
    case 5
    from uint_of_int64 [OF 5] have "growth_int ?x mod 2 ^ 64 = 4722366482869645214" by simp
    then have "?x = - 6862188795419953201" by (rule pre(5))
    then have "c = - 6862188795419953201" by (intro eq) simp
    then show ?thesis by (simp add: bad_caps_def)
  next
    case 6
    from uint_of_int64 [OF 6] have "growth_int ?x mod 2 ^ 64 = 11584555278289598415" by simp
    then have False by (rule pre(6))
    then show ?thesis ..
  qed
qed

lemma growth_loop_max_ends_from_bad:
  "growth_loop t s = Some y \<Longrightarrow> t = max_int64 \<longrightarrow> fst s \<in> bad_caps"
proof (rule growth_loop.raw_induct [where P = "\<lambda>t s y. t = max_int64 \<longrightarrow> fst s \<in> bad_caps"])
  fix f :: "int64 \<Rightarrow> int64 \<times> int64 \<Rightarrow> (int64 \<times> int64) option"
    and t :: int64 and s y :: "int64 \<times> int64"
  assume IH: "\<And>t s y. f t s = Some y \<Longrightarrow> t = max_int64 \<longrightarrow> fst s \<in> bad_caps"
    and run: "(if fst s <s t then f t (growth_body s) else Some s) = Some y"
  show "t = max_int64 \<longrightarrow> fst s \<in> bad_caps"
  proof
    assume t: "t = max_int64"
    show "fst s \<in> bad_caps"
    proof (cases "fst s <s t")
      case True
      with run have "f t (growth_body s) = Some y" by simp
      with IH t have "fst (growth_body (fst s, snd s)) \<in> bad_caps" by simp
      then show ?thesis by (rule bad_caps_closed)
    next
      case False
      with t have "9223372036854775807 \<le> sint (fst s)"
        by (simp add: word_sless_alt max_int64_def)
      moreover have "sint (fst s) < 2 ^ 63" using sint_lt [of "fst s"] by simp
      ultimately have "sint (fst s) = sint (9223372036854775807 :: int64)" by simp
      then have "fst s = 9223372036854775807" by (rule signed_word_eqI)
      then show ?thesis by (simp add: bad_caps_def)
    qed
  qed
qed

text \<open>
  Claim C9, as the code has it. For every target up to \<open>last_cap\<close> the loop of
  \<open>calculateGrowth\<close> ends, with a capacity that is not below the target, and
  every pass it makes increases the capacity. For every target above
  \<open>last_cap\<close> the loop comes to the capacity \<open>last_cap\<close> after 175 passes and
  its next pass, where \<open>cap + cap/4\<close> wraps around, decreases the capacity;
  the loop may still end, as it does for \<open>last_cap + 1\<close>. For a target that is
  not positive the body never runs and the result is \<open>(0, 0, 0 - target)\<close>,
  the difference taken in 64 bits.
\<close>

theorem calculateGrowth_terminates:
  "(target \<le>s last_cap \<longrightarrow>
      (\<exists>cap reallocs. calculateGrowth target = Some (cap, reallocs, cap - target)
          \<and> target \<le>s cap))
   \<and> (target \<le>s last_cap \<longrightarrow>
      (\<forall>k u. growth_run k target (0, 0) = Some u \<and> fst u <s target
          \<longrightarrow> fst u <s fst (growth_body u)))
   \<and> (last_cap <s target \<longrightarrow>
      growth_run 175 target (0, 0) = Some (last_cap, 174)
      \<and> fst (growth_body (last_cap, 174)) <s last_cap)
   \<and> (target \<le>s 0 \<longrightarrow> calculateGrowth target = Some (0, 0, 0 - target))
   \<and> calculateGrowth (last_cap + 1) = Some (8488947664685829290, 200, 484865948051070999)"
proof (intro conjI impI allI)
  assume t: "target \<le>s last_cap"
  have "\<exists>s'. growth_loop target (0, 0) = Some s'"
    by (rule increasing_run_terminates [OF increasing_175]) (simp add: t)
  then obtain s' where s': "growth_loop target (0, 0) = Some s'" by blast
  then have "\<not> fst s' <s target" by (rule growth_loop_exit)
  then have "target \<le>s fst s'" by (simp add: word_sle_eq word_sless_alt)
  with s' show "\<exists>cap reallocs. calculateGrowth target = Some (cap, reallocs, cap - target)
      \<and> target \<le>s cap"
    by (cases s') (simp add: calculateGrowth_def)
next
  fix k u
  assume t: "target \<le>s last_cap"
    and "growth_run k target (0, 0) = Some u \<and> fst u <s target"
  then show "fst u <s fst (growth_body u)"
    using growth_run_increases [OF increasing_175, of k target u] by simp
next
  assume "last_cap <s target"
  then show "growth_run 175 target (0, 0) = Some (last_cap, 174)"
    by (intro increasing_run_below [OF increasing_175]) simp
next
  show "fst (growth_body (last_cap, 174)) <s last_cap"
    by (simp add: last_cap_wraps)
next
  assume "target \<le>s 0"
  then have "\<not> (0::int64) <s target" by (simp add: word_sle_eq word_sless_alt)
  then show "calculateGrowth target = Some (0, 0, 0 - target)"
    by (simp add: calculateGrowth_def growth_loop.simps [of target "(0, 0)"])
next
  show "calculateGrowth (last_cap + 1) = Some (8488947664685829290, 200, 484865948051070999)"
    by (rule ends_above_last_cap)
qed

theorem calculateGrowth_terminates_witness:
  "(1025::int64) \<le>s last_cap
   \<and> (\<exists>cap reallocs. calculateGrowth 1025 = Some (cap, reallocs, cap - 1025) \<and> 1025 \<le>s cap)
   \<and> growth_run 3 1025 (0, 0) = Some (4, 2) \<and> (4::int64) <s 1025
   \<and> (4::int64) <s fst (growth_body (4, 2))
   \<and> last_cap <s max_int64
   \<and> growth_run 175 max_int64 (0, 0) = Some (last_cap, 174)
   \<and> fst (growth_body (last_cap, 174)) <s last_cap
   \<and> (- 5 :: int64) \<le>s 0
   \<and> calculateGrowth (- 5) = Some (0, 0, 5)"
proof -
  have h1: "(1025::int64) \<le>s last_cap"
    by (simp add: last_cap_def word_sle_eq)
  have h2: "growth_run 3 1025 (0, 0) = Some (4, 2) \<and> fst (4 :: int64, 2 :: int64) <s 1025"
    by code_simp
  have h3: "(- 5 :: int64) \<le>s 0"
    by (simp add: word_sle_eq)
  have h4: "last_cap <s max_int64"
    by (simp add: last_cap_def max_int64_def word_sless_alt)
  from calculateGrowth_terminates [of 1025] h1
  have a: "\<exists>cap reallocs. calculateGrowth 1025 = Some (cap, reallocs, cap - 1025) \<and> 1025 \<le>s cap"
    by blast
  from calculateGrowth_terminates [of 1025] h1 h2
  have b: "fst (4 :: int64, 2 :: int64) <s fst (growth_body (4, 2))"
    by blast
  from calculateGrowth_terminates [of "- 5"] h3
  have c: "calculateGrowth (- 5) = Some (0, 0, 0 - (- 5))"
    by blast
  from calculateGrowth_terminates [of max_int64] h4
  have d: "growth_run 175 max_int64 (0, 0) = Some (last_cap, 174)
      \<and> fst (growth_body (last_cap, 174)) <s last_cap"
    by blast
  from h1 a h2 b h3 c h4 d show ?thesis by simp
qed

text \<open>
  The claim as it was written fails for the target \<open>2^63 - 1\<close>: the loop never
  ends there, since the capacity 0 is none of those that lead to \<open>2^63 - 1\<close>.
\<close>

theorem calculateGrowth_diverges_counterexample:
  "calculateGrowth max_int64 = None"
proof (cases "growth_loop max_int64 (0, 0)")
  case None
  then show ?thesis by (simp add: calculateGrowth_def)
next
  case (Some y)
  then have "fst (0 :: int64, 0 :: int64) \<in> bad_caps"
    using growth_loop_max_ends_from_bad [of max_int64 "(0, 0)" y] by simp
  then have False by (simp add: bad_caps_def)
  then show ?thesis ..
qed

subsection \<open>Counted loops\<close>

lemma sint_succ:
  fixes i count :: int64
  assumes "i <s count"
  shows "sint (i + 1) = sint i + 1"
proof -
  from assms have "sint i < sint count" by (simp add: word_sless_alt)
  moreover have "sint count < 2 ^ 63" using sint_lt [of count] by simp
  moreover have "- (2 ^ 63) \<le> sint i" using sint_ge [of i] by simp
  ultimately have "signed_take_bit 63 (sint i + 1) = sint i + 1"
    by (simp add: signed_take_bit_int_eq_self)
  then show ?thesis by (simp add: sint_word_ariths)
qed

lemma for_loop_skip: "\<not> i <s count \<Longrightarrow> for_loop count i body s = s"
  by (simp add: for_loop.simps [of count i])

text \<open>An invariant of the loop variable and the state holds at the end of the loop.\<close>

lemma for_loop_rule:
  assumes "i \<le>s count" and "I i s"
    and "\<And>j t. i \<le>s j \<Longrightarrow> j <s count \<Longrightarrow> I j t \<Longrightarrow> I (j + 1) (body j t)"
  shows "I count (for_loop count i body s)"
  using assms
proof (induction count i body s rule: for_loop.induct)
  case (1 count i body s)
  show ?case
  proof (cases "i <s count")
    case True
    have succ: "sint (i + 1) = sint i + 1" using True by (rule sint_succ)
    have le: "i + 1 \<le>s count"
      using True succ by (simp add: word_sle_eq word_sless_alt)
    have init: "I (i + 1) (body i s)"
      using "1.prems"(3) [of i s] "1.prems"(2) True by (simp add: word_sle_eq)
    have step: "\<And>j t. i + 1 \<le>s j \<Longrightarrow> j <s count \<Longrightarrow> I j t \<Longrightarrow> I (j + 1) (body j t)"
    proof -
      fix j t assume "i + 1 \<le>s j" "j <s count" "I j t"
      moreover from \<open>i + 1 \<le>s j\<close> succ have "i \<le>s j" by (simp add: word_sle_eq)
      ultimately show "I (j + 1) (body j t)" using "1.prems"(3) by blast
    qed
    from "1.IH" [OF True le init step] True show ?thesis
      by (simp add: for_loop.simps [of count i])
  next
    case False
    with "1.prems"(1) have "sint i = sint count"
      by (simp add: word_sle_eq word_sless_alt)
    then have "i = count" by (rule signed_word_eqI)
    with False "1.prems"(2) show ?thesis by (simp add: for_loop.simps [of count count])
  qed
qed

subsection \<open>Allocation counts of Day 2\<close>

lemma uint_nonneg_sint:
  fixes n :: int64
  assumes "0 \<le> sint n"
  shows "uint n = sint n"
proof -
  have "sint n < 2 ^ 63" using sint_lt [of n] by simp
  with assms have "take_bit 64 (sint n) = sint n"
    by (simp add: take_bit_int_eq_self)
  then show ?thesis by (simp add: uint_sint)
qed

lemma uint_neg_sint:
  fixes n :: int64
  assumes "sint n < 0"
  shows "2 ^ 63 \<le> uint n"
proof -
  have "- (2 ^ 63) \<le> sint n" using sint_ge [of n] by simp
  with assms have "0 \<le> sint n + 2 ^ 64" "sint n + 2 ^ 64 < (2 ^ 64 :: int)" by simp_all
  then have "(sint n + 2 ^ 64) mod 2 ^ 64 = sint n + 2 ^ 64" by (rule mod_pos_pos_trivial)
  moreover have "sint n mod 2 ^ 64 = (sint n + 2 ^ 64) mod (2 ^ 64 :: int)" by simp
  ultimately have "uint n = sint n + 2 ^ 64"
    by (simp add: uint_sint take_bit_eq_mod)
  with \<open>- (2 ^ 63) \<le> sint n\<close> show ?thesis by simp
qed

text \<open>What \<open>make\<close> accepts: a count that is not negative and fits the heap.\<close>

lemma too_large_iff:
  "0 < e \<Longrightarrow> too_large e n = (sint n < 0 \<or> maxAlloc < int e * sint n)"
proof (cases "sint n < 0")
  case True
  assume "0 < e"
  then have "1 * uint n \<le> int e * uint n" by (intro mult_right_mono) simp_all
  then have "uint n \<le> int e * uint n" by simp
  with uint_neg_sint [OF True] have "2 ^ 63 \<le> int e * uint n" by linarith
  with True show ?thesis by (simp add: too_large_def maxAlloc_def)
next
  case False
  then have "uint n = sint n" by (intro uint_nonneg_sint) simp
  with False show ?thesis by (simp add: too_large_def)
qed

lemma make_slice_cap:
  "0 < e \<Longrightarrow> make_slice e z 0 n =
     (if 0 \<le> sint n \<and> int e * sint n \<le> maxAlloc then Inr [] else Inl MakeSliceCapOutOfRange)"
  by (auto simp: make_slice_def too_large_iff word_sless_alt maxAlloc_def)






lemma naive_loop_count:
  assumes "0 \<le>s count"
  shows "snd (for_loop count 0 (\<lambda>i (data, allocations). (data @ [i], allocations + 1)) ([], 0))
         = count"
  by (rule for_loop_rule [where I = "\<lambda>j st. snd st = j", OF assms]) (auto split: prod.splits)

lemma benchmarkNaiveAppend_count:
  "0 \<le>s count \<Longrightarrow> benchmarkNaiveAppend since count = (since, count)"
  using naive_loop_count [of count]
  by (auto simp: benchmarkNaiveAppend_def benchmarkNaiveAppend_run_def split: prod.splits)

text \<open>
  Claim C2, evaluated on the code. For 1000 elements \<open>benchmarkNaiveAppend\<close>
  reports 1000 allocations, one for each append, where the growth law needs 11
  steps (the first allocation and 10 reallocations) to reach 1000.
\<close>

theorem naive_append_counts_appends:
  "benchmarkNaiveAppend since 1000 = (since, 1000)
   \<and> calculateGrowth 1000 = Some (1024, 10, 24)"
proof -
  have "(0::int64) \<le>s 1000" by (simp add: word_sle_eq)
  then have "benchmarkNaiveAppend since 1000 = (since, 1000)"
    by (rule benchmarkNaiveAppend_count)
  moreover have "calculateGrowth 1000 = Some (1024, 10, 24)"
    by code_simp
  ultimately show ?thesis by simp
qed




subsection \<open>Struct sizes of Day 1\<close>

text \<open>The offsets are those \<open>explainMemoryLayout\<close> prints.\<close>

lemma layout_offsets:
  "fst (struct_layout 0 BadUser_fields)
     = [(''ID'', 0), (''Active'', 4), (''Name'', 8), (''Age'', 24)]
   \<and> fst (struct_layout 0 GoodUser_fields)
     = [(''ID'', 0), (''Age'', 4), (''Active'', 5), (''Name'', 8)]"
  by (simp add: BadUser_fields_def GoodUser_fields_def align_up_def)

text \<open>
  Claim C4. \<open>BadUser\<close> (a 4-byte int, a 1-byte flag, a 16-byte string, a
  1-byte int, in that order) occupies 32 bytes and \<open>GoodUser\<close>, the same fields
  reordered, 24 bytes under the alignment rules of the 64-bit host: strictly
  fewer.
\<close>

theorem struct_sizes:
  "Sizeof BadUser_fields = 32 \<and> Sizeof GoodUser_fields = 24
   \<and> Sizeof GoodUser_fields < Sizeof BadUser_fields
   \<and> set GoodUser_fields = set BadUser_fields"
  by (auto simp: Sizeof_def BadUser_fields_def GoodUser_fields_def struct_align_def align_up_def)

subsection \<open>Cost projections\<close>

text \<open>The rounding on known cases: one tenth, and the two ties next to \<open>2^53\<close>.\<close>

lemma fl_examples:
  "fl (1 / 10) = 3602879701896397 / 36028797018963968"
  "fl 9007199254740993 = 9007199254740992"
  "fl 9007199254740995 = 9007199254740996"
  by code_simp+

text \<open>The figures of Day 3, which have no input.\<close>

lemma day03_figures:
  "calculateMapCostImpact =
     [(''Map[int]string'', 390625 / 8388608),
      (''Slice of structs'', 15625 / 1048576),
      (''Map overhead'', 265625 / 8388608),
      (''Map overhead factor'', 25 / 8),
      (''Map cost'', 5859375 / 33554432),
      (''Slice cost'', 234375 / 4194304),
      (''Monthly savings'', 3984375 / 33554432),
      (''Annual savings'', 11953125 / 8388608)]"
  by code_simp

text \<open>
  Claim C5. The monthly cost \<open>calculateMapCostImpact\<close> projects for the map of
  1,000,000 entries is \<open>entries * overheadBytes / bytesPerGB * pricePerGBMonth\<close>
  with 50 bytes per entry, \<open>1024 * 1024 * 1024\<close> bytes per GB and 3.75 per
  GB-month, exactly: the right-hand side is the product and quotient of
  rational numbers, and no float64 operation of the code rounds.
\<close>

theorem map_cost_exact:
  "map_of calculateMapCostImpact ''Map cost''
     = Some (1000000 * 50 / (1024 * 1024 * 1024) * (375 / 100))"
  by (simp add: day03_figures)

lemma float64_small_lits:
  "float64_lit 30 = 30" "float64_lit 12 = 12" "float64_lit 8 = 8"
  "float64_lit 1024 = 1024" "float64_lit 1048576 = 1048576"
  by code_simp+

lemma user_count_labels:
  "map (\<lambda>users :: int64. ''%!,(int='' @ show_int (sint users) @ '')d users'')
     [1000000, 10000000, 100000000, 1000000000]
   = [''%!,(int=1000000)d users'', ''%!,(int=10000000)d users'',
      ''%!,(int=100000000)d users'', ''%!,(int=1000000000)d users'']"
  by code_simp

lemma day01_labels:
  "map fst (calculateCostImpact_day01 beforeMem afterMem) =
     [''t3.medium instance'', ''Cost per GB-month'', ''Memory saved'', ''Monthly savings'',
      ''Annual savings'', ''%!,(int=1000000)d users'', ''%!,(int=10000000)d users'',
      ''%!,(int=100000000)d users'', ''%!,(int=1000000000)d users'']"
  using user_count_labels
  by (simp add: calculateCostImpact_day01_def Let_def comp_def)

lemma day01_example:
  "calculateCostImpact_day01 32000000 24000000 =
     [(''t3.medium instance'', 30), (''Cost per GB-month'', 15 / 4),
      (''Memory saved'', 15625 / 2048), (''Monthly savings'', 234375 / 8388608),
      (''Annual savings'', 703125 / 2097152),
      (''%!,(int=1000000)d users'', 234375 / 8388608),
      (''%!,(int=10000000)d users'', 1171875 / 4194304),
      (''%!,(int=100000000)d users'', 5859375 / 2097152),
      (''%!,(int=1000000000)d users'', 29296875 / 1048576)]"
  by code_simp

lemma day02_example:
  "calculateCostImpact_day02 5000000 1000000 1000000 1 =
     [(''Requests per second'', 100),
      (''AWS t3.medium'', 1498797955988901 / 36028797018963968),
      (''Time saved per request'', 4),
      (''CPU time saved per day'', 5404319552844595 / 562949953421312),
      (''Daily savings'', 7194230188746725 / 18014398509481984),
      (''Monthly savings'', 6744590801950055 / 562949953421312),
      (''Annual savings'', 5058443101462541 / 35184372088832)]"
  by code_simp

text \<open>
  Claim C6, as the code has it. Day 2's \<open>calculateCostImpact\<close> computes the
  monthly figure as the float64 product of the daily figure and 30 and the
  annual figure as the float64 product of the monthly figure and 12, each
  rounded to the nearest float64. Day 1's \<open>calculateCostImpact\<close> computes no
  daily figure: its monthly figure is the memory saved in MB, divided by 1024
  and multiplied by the price \<open>30/8\<close> per GB-month in float64, and its annual
  figure the float64 product of the monthly figure and 12. Day 3's
  \<open>calculateMapCostImpact\<close> computes no daily figure: its monthly figure is the
  map cost less the slice cost, and its annual figure is 12 times the monthly
  figure, both without rounding.
\<close>

theorem cost_projection_horizons:
  "(\<exists>d m a. map_of (calculateCostImpact_day02 t1 t2 alloc1 alloc2) ''Daily savings'' = Some d
       \<and> map_of (calculateCostImpact_day02 t1 t2 alloc1 alloc2) ''Monthly savings'' = Some m
       \<and> map_of (calculateCostImpact_day02 t1 t2 alloc1 alloc2) ''Annual savings'' = Some a
       \<and> m = fl (d * 30) \<and> a = fl (m * 12))
   \<and> (map_of (calculateCostImpact_day01 beforeMem afterMem) ''Daily savings'' = None
       \<and> (\<exists>mb m a.
             mb = fl (fl (of_int (uint (beforeMem - afterMem))) / (1024 * 1024))
             \<and> m = fl (fl (mb / 1024) * fl (30 / 8))
             \<and> a = fl (m * 12)
             \<and> map_of (calculateCostImpact_day01 beforeMem afterMem) ''Memory saved'' = Some mb
             \<and> map_of (calculateCostImpact_day01 beforeMem afterMem) ''Monthly savings'' = Some m
             \<and> map_of (calculateCostImpact_day01 beforeMem afterMem) ''Annual savings'' = Some a))
   \<and> (map_of calculateMapCostImpact ''Daily savings'' = None
       \<and> map_of calculateMapCostImpact ''Monthly savings''
           = Some (1000000 * 50 / (1024 * 1024 * 1024) * (375 / 100)
                   - 1000000 * 16 / (1024 * 1024 * 1024) * (375 / 100))
       \<and> map_of calculateMapCostImpact ''Annual savings''
           = Some ((1000000 * 50 / (1024 * 1024 * 1024) * (375 / 100)
                    - 1000000 * 16 / (1024 * 1024 * 1024) * (375 / 100)) * 12))"
proof (intro conjI)
  show "\<exists>d m a. map_of (calculateCostImpact_day02 t1 t2 alloc1 alloc2) ''Daily savings'' = Some d
       \<and> map_of (calculateCostImpact_day02 t1 t2 alloc1 alloc2) ''Monthly savings'' = Some m
       \<and> map_of (calculateCostImpact_day02 t1 t2 alloc1 alloc2) ''Annual savings'' = Some a
       \<and> m = fl (d * 30) \<and> a = fl (m * 12)"
    by (simp add: calculateCostImpact_day02_def Let_def fmul_def float64_small_lits)
next
  have "''Daily savings'' \<notin> set (map fst (calculateCostImpact_day01 beforeMem afterMem))"
    unfolding day01_labels by simp
  then show "map_of (calculateCostImpact_day01 beforeMem afterMem) ''Daily savings'' = None"
    by (simp add: map_of_eq_None_iff)
next
  show "\<exists>mb m a.
             mb = fl (fl (of_int (uint (beforeMem - afterMem))) / (1024 * 1024))
             \<and> m = fl (fl (mb / 1024) * fl (30 / 8))
             \<and> a = fl (m * 12)
             \<and> map_of (calculateCostImpact_day01 beforeMem afterMem) ''Memory saved'' = Some mb
             \<and> map_of (calculateCostImpact_day01 beforeMem afterMem) ''Monthly savings'' = Some m
             \<and> map_of (calculateCostImpact_day01 beforeMem afterMem) ''Annual savings'' = Some a"
    by (simp add: calculateCostImpact_day01_def Let_def fmul_def fdiv_def
        float64_of_uintptr_def float64_small_lits)
next
  show "map_of calculateMapCostImpact ''Daily savings'' = None"
    by (simp add: day03_figures)
next
  show "map_of calculateMapCostImpact ''Monthly savings''
           = Some (1000000 * 50 / (1024 * 1024 * 1024) * (375 / 100)
                   - 1000000 * 16 / (1024 * 1024 * 1024) * (375 / 100))"
    by (simp add: day03_figures)
next
  show "map_of calculateMapCostImpact ''Annual savings''
           = Some ((1000000 * 50 / (1024 * 1024 * 1024) * (375 / 100)
                    - 1000000 * 16 / (1024 * 1024 * 1024) * (375 / 100)) * 12)"
    by (simp add: day03_figures)
qed

text \<open>
  The claim as it was written fails twice. On Day 1, for the 32,000,000 and
  24,000,000 bytes of one million users, the projection prints a monthly figure
  and no daily figure that it could be 30 times of. On Day 2, for 5 ms against
  1 ms, the monthly figure is the product of the daily figure and 30 after
  rounding, and is not 30 times the daily figure.
\<close>

theorem cost_projection_counterexample:
  "map_of (calculateCostImpact_day01 32000000 24000000) ''Daily savings'' = None
   \<and> map_of (calculateCostImpact_day01 32000000 24000000) ''Monthly savings''
       = Some (234375 / 8388608)
   \<and> map_of (calculateCostImpact_day02 5000000 1000000 1000000 1) ''Daily savings''
       = Some (7194230188746725 / 18014398509481984)
   \<and> map_of (calculateCostImpact_day02 5000000 1000000 1000000 1) ''Monthly savings''
       = Some (6744590801950055 / 562949953421312)
   \<and> (6744590801950055 / 562949953421312 :: rat)
       \<noteq> 30 * (7194230188746725 / 18014398509481984)"
  by (simp add: day01_example day02_example)

subsection \<open>Repeated measurements\<close>

text \<open>The byte totals of Day 1, for a count that \<open>make\<close> accepts: the size of the struct
  times the count.\<close>

lemma append_loop_length:
  assumes "0 \<le>s count"
  shows "length (for_loop count 0 (\<lambda>i xs. xs @ [f i]) []) = nat (sint count)"
proof (rule for_loop_rule [where I = "\<lambda>j xs. length xs = nat (sint j)", OF assms])
  show "length [] = nat (sint (0 :: int64))" by simp
next
  fix j :: int64 and t :: "'a list"
  assume "0 \<le>s j" "j <s count" "length t = nat (sint j)"
  moreover from \<open>j <s count\<close> have "sint (j + 1) = sint j + 1" by (rule sint_succ)
  ultimately show "length (t @ [f j]) = nat (sint (j + 1))"
    by (simp add: word_sle_eq nat_add_distrib)
qed

lemma benchmarkBadUser_total:
  assumes "0 \<le>s count" and "32 * sint count \<le> maxAlloc"
  shows "benchmarkBadUser since count = Inr (since, 32 * count)"
proof -
  from assms have nn: "0 \<le> sint count" by (simp add: word_sle_eq)
  have "go_len (for_loop count 0 (\<lambda>i users. users @ [new_BadUser i]) []) = count"
    using nn by (simp add: go_len_def append_loop_length [OF assms(1)])
  moreover have "Sizeof BadUser_fields = 32"
    by (simp add: Sizeof_def BadUser_fields_def struct_align_def align_up_def)
  ultimately show ?thesis
    using nn assms(2)
    by (simp add: benchmarkBadUser_def benchmarkBadUser_run_def make_slice_cap Let_def)
qed

lemma benchmarkGoodUser_total:
  assumes "0 \<le>s count" and "24 * sint count \<le> maxAlloc"
  shows "benchmarkGoodUser since count = Inr (since, 24 * count)"
proof -
  from assms have nn: "0 \<le> sint count" by (simp add: word_sle_eq)
  have "go_len (for_loop count 0 (\<lambda>i users. users @ [new_GoodUser i]) []) = count"
    using nn by (simp add: go_len_def append_loop_length [OF assms(1)])
  moreover have "Sizeof GoodUser_fields = 24"
    by (simp add: Sizeof_def GoodUser_fields_def struct_align_def align_up_def)
  ultimately show ?thesis
    using nn assms(2)
    by (simp add: benchmarkGoodUser_def benchmarkGoodUser_run_def make_slice_cap Let_def)
qed

text \<open>
  Claim C7. Two runs of a measurement function with the same count end with the
  same allocation count or byte total and the same container, whatever the two
  elapsed times are, and fail with the same panic if they fail; the value
  returned differs in the elapsed time only.
\<close>

theorem measurements_repeatable:
  "snd (benchmarkNaiveAppend_run since1 count) = snd (benchmarkNaiveAppend_run since2 count)
   \<and> map_sum id snd (benchmarkWithMake_run since1 count)
       = map_sum id snd (benchmarkWithMake_run since2 count)
   \<and> map_sum id snd (benchmarkFixedArray_run since1 count)
       = map_sum id snd (benchmarkFixedArray_run since2 count)
   \<and> map_sum id snd (benchmarkBadUser_run since1 count)
       = map_sum id snd (benchmarkBadUser_run since2 count)
   \<and> map_sum id snd (benchmarkGoodUser_run since1 count)
       = map_sum id snd (benchmarkGoodUser_run since2 count)
   \<and> snd (benchmarkNaiveAppend since1 count) = snd (benchmarkNaiveAppend since2 count)
   \<and> map_sum id snd (benchmarkWithMake since1 count)
       = map_sum id snd (benchmarkWithMake since2 count)
   \<and> map_sum id snd (benchmarkFixedArray since1 count)
       = map_sum id snd (benchmarkFixedArray since2 count)
   \<and> map_sum id snd (benchmarkBadUser since1 count)
       = map_sum id snd (benchmarkBadUser since2 count)
   \<and> map_sum id snd (benchmarkGoodUser since1 count)
       = map_sum id snd (benchmarkGoodUser since2 count)"
  by (simp add: benchmarkNaiveAppend_run_def benchmarkWithMake_run_def
      benchmarkFixedArray_run_def benchmarkBadUser_run_def benchmarkGoodUser_run_def
      benchmarkNaiveAppend_def benchmarkWithMake_def benchmarkFixedArray_def
      benchmarkBadUser_def benchmarkGoodUser_def
      Let_def split: prod.splits sum.splits)

subsection \<open>Lookup by binary search\<close>

lemma sint_in_range:
  fixes k :: int
  assumes "- (2 ^ 63) \<le> k" "k < 2 ^ 63"
  shows "sint (word_of_int k :: int64) = k"
  using assms by (simp add: sint_sbintrunc' signed_take_bit_int_eq_self)

lemma sint_add_small:
  fixes a b :: int64
  assumes "- (2 ^ 63) \<le> sint a + sint b" "sint a + sint b < 2 ^ 63"
  shows "sint (a + b) = sint a + sint b"
  using assms by (simp add: sint_word_ariths signed_take_bit_int_eq_self)

lemma sint_pred:
  fixes a b :: int64
  assumes "b <s a"
  shows "sint (a - 1) = sint a - 1"
proof -
  from assms have "sint b < sint a" by (simp add: word_sless_alt)
  moreover have "- (2 ^ 63) \<le> sint b" using sint_ge [of b] by simp
  moreover have "sint a < 2 ^ 63" using sint_lt [of a] by simp
  ultimately have "signed_take_bit 63 (sint a - 1) = sint a - 1"
    by (simp add: signed_take_bit_int_eq_self)
  then show ?thesis by (simp add: sint_word_ariths)
qed

lemma go_div_2_small:
  fixes a :: int64
  assumes "0 \<le> sint a"
  shows "sint (go_div a 2) = sint a div 2"
proof -
  have "sint a < 2 ^ 63" using sint_lt [of a] by simp
  with assms have "sint a sdiv 2 = sint a div 2"
    by (simp add: signed_divide_int_def sgn_if)
  moreover have "- (2 ^ 63) \<le> sint a div 2" "sint a div 2 < 2 ^ 63"
    using assms \<open>sint a < 2 ^ 63\<close> by simp_all
  ultimately show ?thesis
    by (simp add: go_div_def sint_in_range)
qed

lemma make_1000:
  "make_slice 24 zero_entry 1000 1000 = Inr (replicate 1000 zero_entry)"
  by (simp add: make_slice_def too_large_def maxAlloc_def word_sless_alt)

lemma show_500: "show_int 500 = ''500''"
  by code_simp


lemma lookup_slice_eq:
  "\<exists>xs. lookup_slice = Inr xs \<and> length xs = 1000
      \<and> (\<forall>k<1000. xs ! k = \<lparr>Key = word_of_nat k, Value = ''value''\<rparr>)"
proof -
  let ?f = "\<lambda>i :: int64. \<lparr>Key = i, Value = ''value''\<rparr>"
  let ?I = "\<lambda>(j :: int64) st. \<exists>xs. st = Inr xs \<and> length xs = 1000
      \<and> (\<forall>k < nat (sint j). xs ! k = \<lparr>Key = word_of_nat k, Value = ''value''\<rparr>)"
  have le: "(0::int64) \<le>s 1000" by (simp add: word_sle_eq)
  have "?I 1000 (for_loop 1000 0 (store_at ?f) (Inr (replicate 1000 zero_entry)))"
  proof (rule for_loop_rule [where I = ?I, OF le])
    show "?I 0 (Inr (replicate 1000 zero_entry))" by simp
  next
    fix j :: int64 and t :: "panic + entry list"
    assume j0: "0 \<le>s j" and j1: "j <s 1000" and inv: "?I j t"
    from inv obtain xs where t: "t = Inr xs" and len: "length xs = 1000"
      and pre: "\<forall>k < nat (sint j). xs ! k = \<lparr>Key = word_of_nat k, Value = ''value''\<rparr>"
      by blast
    from j0 have nn: "0 \<le> sint j" by (simp add: word_sle_eq)
    from j1 have lt: "sint j < 1000" by (simp add: word_sless_alt)
    have succ: "sint (j + 1) = sint j + 1" using j1 by (rule sint_succ)
    have st: "store_at ?f j t = Inr (xs[nat (sint j) := ?f j])"
      using t len nn lt j0 by (simp add: store_at_def)
    have "\<forall>k < nat (sint (j + 1)). (xs[nat (sint j) := ?f j]) ! k
        = \<lparr>Key = word_of_nat k, Value = ''value''\<rparr>"
    proof (intro allI impI)
      fix k assume "k < nat (sint (j + 1))"
      moreover have "nat (sint (j + 1)) = Suc (nat (sint j))"
        using succ nn by (simp add: nat_add_distrib)
      ultimately have "k < nat (sint j) \<or> k = nat (sint j)"
        by (simp add: less_Suc_eq)
      then show "(xs[nat (sint j) := ?f j]) ! k = \<lparr>Key = word_of_nat k, Value = ''value''\<rparr>"
      proof
        assume "k < nat (sint j)"
        with pre show ?thesis by simp
      next
        assume k: "k = nat (sint j)"
        with nn have "word_of_nat k = j" by simp
        with k len lt nn show ?thesis by simp
      qed
    qed
    with st len show "?I (j + 1) (store_at ?f j t)" by simp
  qed
  then show ?thesis
    by (simp add: lookup_slice_def make_1000)
qed

lemma binary_search_sorted:
  fixes xs :: "entry list"
  assumes len: "int (length xs) < 2 ^ 62"
    and keys: "\<forall>k < length xs. Key (xs ! k) = word_of_nat k"
  shows "0 \<le> sint low \<Longrightarrow> sint low \<le> sint key \<Longrightarrow> sint key \<le> sint high \<Longrightarrow>
         sint high < int (length xs) \<Longrightarrow>
         binary_search_loop xs key low high found = Some (Inr (Value (xs ! nat (sint key))))"
proof (induction "nat (sint high - sint low)" arbitrary: low high rule: less_induct)
  case less
  let ?L = "sint low" and ?H = "sint high" and ?K = "sint key"
  let ?mid = "go_div (low + high) 2"
  from less.prems have guard: "low \<le>s high" by (simp add: word_sle_eq)
  from less.prems len have sum: "sint (low + high) = ?L + ?H"
    by (intro sint_add_small) simp_all
  with less.prems have M: "sint ?mid = (?L + ?H) div 2"
    by (simp add: go_div_2_small)
  from M less.prems have midL: "?L \<le> sint ?mid" and midH: "sint ?mid \<le> ?H" by simp_all
  from midL midH less.prems have idx: "index_slice xs ?mid = Inr (xs ! nat (sint ?mid))"
    by (simp add: index_slice_def word_sle_eq)
  from midL midH less.prems keys have "Key (xs ! nat (sint ?mid)) = word_of_nat (nat (sint ?mid))"
    by simp
  with midL less.prems have key_mid: "Key (xs ! nat (sint ?mid)) = ?mid" by simp
  show ?case
  proof (cases "?mid = key")
    case True
    with guard idx key_mid show ?thesis
      by (simp add: binary_search_loop.simps [of xs key low high found] Let_def)
  next
    case False
    show ?thesis
    proof (cases "?mid <s key")
      case True
      then have succ: "sint (?mid + 1) = sint ?mid + 1" by (rule sint_succ)
      from True have "sint ?mid < ?K" by (simp add: word_sless_alt)
      with succ midL midH less.prems
      have "binary_search_loop xs key (?mid + 1) high found
          = Some (Inr (Value (xs ! nat (sint key))))"
        by (intro less.hyps) simp_all
      with guard idx key_mid False True show ?thesis
        by (simp add: binary_search_loop.simps [of xs key low high found] Let_def)
    next
      case nlt: False
      from False have "sint ?mid \<noteq> ?K" by (auto dest: signed_word_eqI)
      with nlt have gt: "?K < sint ?mid" by (simp add: word_sless_alt)
      then have "key <s ?mid" by (simp add: word_sless_alt)
      then have pred: "sint (?mid - 1) = sint ?mid - 1" by (rule sint_pred)
      with gt midL midH less.prems
      have "binary_search_loop xs key low (?mid - 1) found
          = Some (Inr (Value (xs ! nat (sint key))))"
        by (intro less.hyps) simp_all
      with guard idx key_mid False nlt show ?thesis
        by (simp add: binary_search_loop.simps [of xs key low high found] Let_def)
    qed
  qed
qed


lemma go_mod_1000:
  fixes i :: int64
  assumes "0 \<le>s i"
  shows "0 \<le> sint (go_mod i 1000) \<and> sint (go_mod i 1000) < 1000"
proof -
  from assms have nn: "0 \<le> sint i" by (simp add: word_sle_eq)
  then have "sint i smod 1000 = sint i mod 1000"
    by (simp add: signed_modulo_int_def sgn_if)
  moreover have "0 \<le> sint i mod 1000" "sint i mod 1000 < 1000" by simp_all
  ultimately show ?thesis
    by (simp add: go_mod_def sint_in_range)
qed


text \<open>
  Claim C10. On every slice of 1000 entries with \<open>slice[k].Key = k\<close>, whatever
  its values, for every key from 0 to 999 and whatever \<open>found\<close> held before,
  the search loop ends without a panic and leaves in \<open>found\<close> the \<open>Value\<close> of
  the entry at index \<open>key\<close>, which is the one entry whose \<open>Key\<close> is the key
  searched. The slice that \<open>Benchmark_SliceLookupBinarySearch\<close> prepares is
  such a slice, with the value \<open>"value"\<close> in every entry; so every pass
  \<open>i \<ge> 0\<close> of the benchmark, which searches \<open>i % 1000\<close>, ends with
  \<open>found = "value"\<close>.
\<close>

theorem binary_search_finds:
  "(\<forall>slice' key found.
       length slice' = 1000 \<and> (\<forall>k<1000. Key (slice' ! k) = word_of_nat k)
       \<and> 0 \<le>s key \<and> key <s 1000 \<longrightarrow>
         binary_search_loop slice' key 0 (go_len slice' - 1) found
           = Some (Inr (Value (slice' ! nat (sint key))))
         \<and> Key (slice' ! nat (sint key)) = key
         \<and> (\<forall>k. k < length slice' \<and> Key (slice' ! k) = key \<longrightarrow> k = nat (sint key)))
   \<and> (\<exists>slice'. lookup_slice = Inr slice' \<and> length slice' = 1000
         \<and> (\<forall>k<1000. slice' ! k = \<lparr>Key = word_of_nat k, Value = ''value''\<rparr>)
         \<and> (\<forall>i found. 0 \<le>s i \<longrightarrow>
               binary_search_iteration slice' i found = Some (Inr ''value'')))"
proof -
  have search: "binary_search_loop xs key 0 (go_len xs - 1) found
      = Some (Inr (Value (xs ! nat (sint key))))"
    if len: "length xs = 1000" and keys: "\<forall>k<1000. Key (xs ! k) = word_of_nat k"
      and "0 \<le> sint key" "sint key < 1000" for xs key found
  proof -
    from len have len62: "int (length xs) < 2 ^ 62" by simp
    from keys len have keys': "\<forall>k < length xs. Key (xs ! k) = word_of_nat k" by simp
    have high: "go_len xs - 1 = (999 :: int64)" by (simp add: go_len_def len)
    show ?thesis
      unfolding high using that(3,4) len
      by (intro binary_search_sorted [OF len62 keys']) simp_all
  qed
  have part1: "binary_search_loop xs key 0 (go_len xs - 1) found
              = Some (Inr (Value (xs ! nat (sint key))))
            \<and> Key (xs ! nat (sint key)) = key
            \<and> (\<forall>k. k < length xs \<and> Key (xs ! k) = key \<longrightarrow> k = nat (sint key))"
    if hyp: "length xs = 1000 \<and> (\<forall>k<1000. Key (xs ! k) = word_of_nat k)
       \<and> 0 \<le>s key \<and> key <s 1000" for xs key found
  proof -
    from hyp have len: "length xs = 1000" and keys: "\<forall>k<1000. Key (xs ! k) = word_of_nat k"
      and nn: "0 \<le> sint key" and lt: "sint key < 1000"
      by (simp_all add: word_sle_eq word_sless_alt)
    from nn lt keys have "Key (xs ! nat (sint key)) = word_of_nat (nat (sint key))"
      by simp
    with nn have a: "Key (xs ! nat (sint key)) = key" by simp
    have b: "k = nat (sint key)" if "k < length xs \<and> Key (xs ! k) = key" for k
    proof -
      from that keys len have "key = word_of_int (int k)" by auto
      moreover from that len have "- (2 ^ 63) \<le> int k" "int k < 2 ^ 63" by simp_all
      then have "sint (word_of_int (int k) :: int64) = int k" by (rule sint_in_range)
      ultimately have "sint key = int k" by (simp only:)
      then show ?thesis by simp
    qed
    from search [OF len keys nn lt] a b show ?thesis by blast
  qed
  from lookup_slice_eq obtain xs where xs: "lookup_slice = Inr xs" and len: "length xs = 1000"
    and ents: "\<forall>k<1000. xs ! k = \<lparr>Key = word_of_nat k, Value = ''value''\<rparr>"
    by blast
  from ents have keys: "\<forall>k<1000. Key (xs ! k) = word_of_nat k" by simp
  have part2: "binary_search_iteration xs i found = Some (Inr ''value'')" if "0 \<le>s i" for i found
  proof -
    from go_mod_1000 [OF that] have nn: "0 \<le> sint (go_mod i 1000)"
      and lt: "sint (go_mod i 1000) < 1000" by simp_all
    from nn lt ents have "Value (xs ! nat (sint (go_mod i 1000))) = ''value''" by simp
    with search [OF len keys nn lt, of found] show ?thesis
      by (simp add: binary_search_iteration_def Let_def)
  qed
  from xs len ents part1 part2 show ?thesis by blast
qed

theorem binary_search_finds_witness:
  "length numbered_entries = 1000
   \<and> map Key numbered_entries = map word_of_nat [0..<1000]
   \<and> (0::int64) \<le>s 500 \<and> (500::int64) <s 1000
   \<and> binary_search_loop numbered_entries 500 0 (go_len numbered_entries - 1) []
        = Some (Inr ''500'')
   \<and> (0::int64) \<le>s 1500
   \<and> (\<exists>slice'. lookup_slice = Inr slice'
         \<and> binary_search_iteration slice' 1500 [] = Some (Inr ''value''))"
proof -
  have h1: "length numbered_entries = 1000
      \<and> (\<forall>k<1000. Key (numbered_entries ! k) = word_of_nat k)
      \<and> (0::int64) \<le>s 500 \<and> (500::int64) <s 1000"
    by (simp add: numbered_entries_def word_sle_eq word_sless_alt)
  have h2: "(0::int64) \<le>s 1500"
    by (simp add: word_sle_eq)
  have v: "Value (numbered_entries ! nat (sint (500 :: int64))) = ''500''"
    by (simp add: numbered_entries_def show_500)
  from binary_search_finds h1
  have "binary_search_loop numbered_entries 500 0 (go_len numbered_entries - 1) []
      = Some (Inr (Value (numbered_entries ! nat (sint (500 :: int64)))))"
    by blast
  with v have a: "binary_search_loop numbered_entries 500 0 (go_len numbered_entries - 1) []
      = Some (Inr ''500'')"
    by simp
  from binary_search_finds h2
  have b: "\<exists>slice'. lookup_slice = Inr slice'
      \<and> binary_search_iteration slice' 1500 [] = Some (Inr ''value'')"
    by blast
  have k: "map Key numbered_entries = map word_of_nat [0..<1000]"
    by (simp add: numbered_entries_def comp_def)
  from h1 k a h2 b show ?thesis by blast
qed

end
